theory Spec2Isabelle
  imports Main "HOL-Library.Word"
begin

unbundle bit_operations_syntax

section \<open>Values of the host language\<close>

text \<open>
  A \<open>Buffer\<close> is a list of bytes. A string is a list of characters (code units below
  256, which covers every literal and every character class the source tests).
\<close>

type_synonym byte = "8 word"
type_synonym bytes = "byte list"

text \<open>
  The source throws \<open>new Error(message)\<close> everywhere; the message is the only thing
  that tells two failures apart. \<open>TypeError\<close> is what the runtime itself throws, for
  instance on reading a property of \<open>undefined\<close>.
\<close>

datatype error = Error string | TypeError

text \<open>
  The specification names the failures; in the source they are these messages:
  \<^item> \<open>ChainTooShortError\<close>: \<open>Missing certs\<close>;
  \<^item> \<open>BadAuthSignatureError\<close>: \<open>bad sig in when verifying certificates\<close>;
  \<^item> \<open>CounterfeitDeviceError\<close>: \<open>Root cert is not from Coinkite. Card is counterfeit.\<close>
    for a chain, \<open>Corrupt response\<close> for an address;
  \<^item> \<open>ProofOfPossessionError\<close>: \<open>Bad sig in recover_pubkey\<close>, \<open>Bad sig in recover_address\<close>;
  \<^item> \<open>WrongDeviceTypeError\<close>: \<open>Card is not a Tapsigner\<close>,
    \<open>recover_address: tapsigner not supported\<close>;
  \<^item> \<open>FramingError\<close>: \<open>Invalid message length\<close>, \<open>Invalid slot pubkey length\<close>;
  \<^item> \<open>InvalidInputError\<close>: \<open>Invalid cvc length\<close>, \<open>Invalid digest length\<close>,
    \<open>Invalid sig length\<close>, \<open>expecting compressed pubkey\<close>;
  \<^item> \<open>SignatureRecoveryError\<close>: \<open>sig may not be created by that address/pubkey??\<close>;
  \<^item> \<open>MalformedPathError\<close>: \<open>Malformed bip32 path component: \<close> and the component;
  \<^item> \<open>PathRangeError\<close>: \<open>Hardened path component out of range: \<close> or
    \<open>Non-hardened path component out of range: \<close> and the component.
\<close>

text \<open>\<open>xs.slice(start, end)\<close>: a negative index counts from the end, both are clamped.\<close>

definition js_index :: "int \<Rightarrow> nat \<Rightarrow> nat" where
  "js_index i n = (if i < 0 then nat (max (int n + i) 0) else min (nat i) n)"

definition js_slice :: "'a list \<Rightarrow> int \<Rightarrow> int \<Rightarrow> 'a list" where
  "js_slice xs start fin =
     (let n = length xs; a = js_index start n; b = js_index fin n
      in take (b - a) (drop a xs))"

definition js_slice_from :: "'a list \<Rightarrow> int \<Rightarrow> 'a list" where
  "js_slice_from xs start = js_slice xs start (int (length xs))"

text \<open>\<open>s.indexOf(c)\<close> and \<open>s.lastIndexOf(c)\<close> for a one-character needle: -1 when absent.\<close>

fun js_indexOf :: "'a list \<Rightarrow> 'a \<Rightarrow> int" where
  "js_indexOf [] c = -1"
| "js_indexOf (x # xs) c =
     (if x = c then 0 else (let r = js_indexOf xs c in if r < 0 then -1 else r + 1))"

definition js_lastIndexOf :: "'a list \<Rightarrow> 'a \<Rightarrow> int" where
  "js_lastIndexOf xs c =
     (let r = js_indexOf (rev xs) c in if r < 0 then -1 else int (length xs) - 1 - r)"

definition startsWith :: "'a list \<Rightarrow> 'a list \<Rightarrow> bool" where
  "startsWith s p = (take (length p) s = p)"

definition endsWith :: "'a list \<Rightarrow> 'a list \<Rightarrow> bool" where
  "endsWith s p = (length p \<le> length s \<and> drop (length s - length p) s = p)"

section \<open>Collaborators and constants\<close>

text \<open>
  The primitives the module imports from \<open>./compat\<close> and from the \<open>bech32\<close> package are
  not part of the module; they are parameters of every function that calls them.
  \<open>CT_sig_verify\<close> takes the signature, the digest and the public key, in that order, as
  \<open>verify_certs_ll\<close>, \<open>recover_address\<close> and \<open>verify_master_pubkey\<close> call it.
  \<open>CT_sig_to_pubkey\<close> takes the digest and the recoverable signature and may throw:
  \<open>make_recoverable_sig\<close> catches what it throws. The other primitives are taken to
  return a value on every input.
\<close>

record compat =
  sha256s :: "bytes \<Rightarrow> bytes"
  hash160 :: "bytes \<Rightarrow> bytes"
  base32Encode :: "bytes \<Rightarrow> string"
  CT_sig_verify :: "bytes \<Rightarrow> bytes \<Rightarrow> bytes \<Rightarrow> bool"
  CT_sig_to_pubkey :: "bytes \<Rightarrow> bytes \<Rightarrow> error + bytes"
  CT_ecdh :: "bytes \<Rightarrow> bytes \<Rightarrow> bytes"
  CT_priv_to_pubkey :: "bytes \<Rightarrow> bytes"
  bech32_toWords :: "bytes \<Rightarrow> nat list"
  bech32_encode :: "string \<Rightarrow> nat list \<Rightarrow> string"

text \<open>The values imported from \<open>./constants\<close>, likewise parameters.\<close>

record constants =
  ADDR_TRIM :: nat
  CARD_NONCE_SIZE :: nat
  USER_NONCE_SIZE :: nat
  FACTORY_ROOT_KEYS :: "bytes list"

text \<open>What the collaborators promise about lengths: a 32-byte digest, and one base32
  character for every five bits of input.\<close>

definition sha256s_32 :: "compat \<Rightarrow> bool" where
  "sha256s_32 cr = (\<forall>m. length (sha256s cr m) = 32)"

definition base32_full :: "compat \<Rightarrow> bool" where
  "base32_full cr = (\<forall>b. (8 * length b + 4) div 5 \<le> length (base32Encode cr b))"

text \<open>Stand-ins for the collaborators, used to run the functions on concrete inputs: the
  digest is 32 bytes that start with the length of the message, a signature verifies when
  signature, digest and key have the lengths 64, 32 and 33, and the signer recovered from
  a signature is its bytes 1 to 33.\<close>

definition demo_compat :: compat where
  "demo_compat =
     \<lparr> sha256s = (\<lambda>m. of_nat (length m) # replicate 31 0),
       hash160 = (\<lambda>m. take 20 m),
       base32Encode = (\<lambda>b. replicate ((8 * length b + 4) div 5) CHR ''a''),
       CT_sig_verify = (\<lambda>sg d pub. length sg = 64 \<and> length d = 32 \<and> length pub = 33),
       CT_sig_to_pubkey = (\<lambda>d sg. Inr (take 33 (drop 1 sg))),
       CT_ecdh = (\<lambda>pub priv. replicate 32 7),
       CT_priv_to_pubkey = (\<lambda>priv. 2 # priv),
       bech32_toWords = (\<lambda>b. map unat b),
       bech32_encode = (\<lambda>hrp ws. hrp @ ''1'' @ map (\<lambda>w. char_of (97 + w mod 26)) ws) \<rparr>"

section \<open>Byte helpers\<close>

text \<open>\<open>xor_bytes\<close>: both arguments are Buffers at every call site of the typed module, so
  only the length test can fail.\<close>

definition xor_bytes :: "bytes \<Rightarrow> bytes \<Rightarrow> error + bytes" where
  "xor_bytes a b =
     (if length a \<noteq> length b
      then Inl (Error ''Length mismatch: Expected same lengths at xor_bytes'')
      else Inr (map2 (XOR) a b))"

section \<open>Identity fingerprint\<close>

definition card_pubkey_to_ident :: "compat \<Rightarrow> bytes \<Rightarrow> error + string" where
  "card_pubkey_to_ident cr card_pubkey =
     (if length card_pubkey \<noteq> 33 then Inl (Error ''expecting compressed pubkey'')
      else
        let md = base32Encode cr (js_slice_from (sha256s cr card_pubkey) 8);
            v = foldl (\<lambda>v i. v @ js_slice md (int i) (int i + 5) @ ''-'') [] [0, 5, 10, 15]
        in Inr (js_slice v 0 (-1)))"

section \<open>Nonce generator\<close>

text \<open>
  \<open>randomBytes(n)\<close> reads the next \<open>n\<close> bytes of an entropy source; the source is the
  state, and what is left of it is returned with the bytes.
\<close>

type_synonym entropy = "nat \<Rightarrow> byte"

definition randomBytes :: "nat \<Rightarrow> entropy \<Rightarrow> bytes \<times> entropy" where
  "randomBytes n src = (map src [0..<n], (\<lambda>i. src (i + n)))"

text \<open>\<open>xs[i]\<close>: \<open>None\<close> is \<open>undefined\<close>, which is what every index outside the array reads
  (a negative one too). \<open>a != b\<close> on such values is plain inequality: a number never
  equals \<open>undefined\<close>.\<close>

definition js_at :: "'a list \<Rightarrow> int \<Rightarrow> 'a option" where
  "js_at xs i = (if 0 \<le> i \<and> nat i < length xs then Some (xs ! nat i) else None)"

text \<open>The loop of \<open>pick_nonce\<close>, counted down from \<open>num_of_retry\<close>; falling out of the loop
  returns \<open>undefined\<close> (\<open>None\<close>). \<open>new Set(rv).size\<close> is the number of distinct bytes.\<close>

fun pick_nonce_loop :: "constants \<Rightarrow> nat \<Rightarrow> entropy \<Rightarrow> bytes option \<times> entropy" where
  "pick_nonce_loop c 0 src = (None, src)"
| "pick_nonce_loop c (Suc k) src =
     (case randomBytes (USER_NONCE_SIZE c) src of (rv, src') \<Rightarrow>
        if js_at rv 0 \<noteq> js_at rv (-1) \<or> 2 \<le> length (remdups rv) then (Some rv, src')
        else pick_nonce_loop c k src')"

definition pick_nonce :: "constants \<Rightarrow> entropy \<Rightarrow> bytes option \<times> entropy" where
  "pick_nonce c src = (let num_of_retry = 3 in pick_nonce_loop c num_of_retry src)"

text \<open>A nonce is degenerate when its first byte equals its last one or when it holds
  fewer than two distinct byte values.\<close>

definition degenerate :: "bytes \<Rightarrow> bool" where
  "degenerate rv = (rv = [] \<or> hd rv = last rv \<or> length (remdups rv) < 2)"

definition demo_constants :: constants where
  "demo_constants =
     \<lparr> ADDR_TRIM = 12, CARD_NONCE_SIZE = 16, USER_NONCE_SIZE = 16,
       FACTORY_ROOT_KEYS = [3 # replicate 32 1, 2 # replicate 32 9] \<rparr>"

section \<open>Derivation paths\<close>

text \<open>
  The numbers the path codec meets are integers, \<open>NaN\<close>, the negative zero and the two
  infinities: \<open>parseInt\<close> and the bitwise operators give nothing else. A number of the
  source is a double, so an integer read from text is rounded to 53 significant bits
  (\<open>to_double\<close> below). The bitwise operators work on the 32-bit two's complement image
  of their operands (\<open>NaN\<close>, the zeros and the infinities become 0): \<open>&\<close>, \<open>|\<close> and \<open>~\<close>
  give a signed result, \<open>>>> 0\<close> an unsigned one.
\<close>

datatype jsnum = NaN | Num int | NegZero | PosInfinity | NegInfinity

fun ToInt32 :: "jsnum \<Rightarrow> 32 word" where
  "ToInt32 (Num n) = word_of_int n"
| "ToInt32 _ = 0"

definition js_and :: "jsnum \<Rightarrow> jsnum \<Rightarrow> jsnum" where
  "js_and a b = Num (sint (ToInt32 a AND ToInt32 b))"

definition js_or :: "jsnum \<Rightarrow> jsnum \<Rightarrow> jsnum" where
  "js_or a b = Num (sint (ToInt32 a OR ToInt32 b))"

definition js_not :: "jsnum \<Rightarrow> jsnum" where
  "js_not a = Num (sint (NOT (ToInt32 a)))"

definition js_ushr0 :: "jsnum \<Rightarrow> jsnum" where
  "js_ushr0 a = Num (uint (ToInt32 a))"

fun truthy :: "jsnum \<Rightarrow> bool" where
  "truthy NaN = False"
| "truthy (Num n) = (n \<noteq> 0)"
| "truthy NegZero = False"
| "truthy PosInfinity = True"
| "truthy NegInfinity = True"

text \<open>The order of the numbers: a comparison with \<open>NaN\<close> is false, the two zeros are
  equal, and the infinities lie beyond every integer.\<close>

fun js_rank :: "jsnum \<Rightarrow> int \<times> int" where
  "js_rank (Num n) = (0, n)"
| "js_rank NegZero = (0, 0)"
| "js_rank PosInfinity = (1, 0)"
| "js_rank NegInfinity = (-1, 0)"
| "js_rank NaN = (0, 0)"

definition js_le :: "jsnum \<Rightarrow> jsnum \<Rightarrow> bool" where
  "js_le a b =
     (a \<noteq> NaN \<and> b \<noteq> NaN \<and>
      (fst (js_rank a) < fst (js_rank b) \<or>
       (fst (js_rank a) = fst (js_rank b) \<and> snd (js_rank a) \<le> snd (js_rank b))))"

definition js_lt :: "jsnum \<Rightarrow> jsnum \<Rightarrow> bool" where
  "js_lt a b =
     (a \<noteq> NaN \<and> b \<noteq> NaN \<and>
      (fst (js_rank a) < fst (js_rank b) \<or>
       (fst (js_rank a) = fst (js_rank b) \<and> snd (js_rank a) < snd (js_rank b))))"

definition HARDENED :: jsnum where
  "HARDENED = Num 0x80000000"

text \<open>\<open>0 <= num < HARDENED\<close> is \<open>(0 <= num) < HARDENED\<close>: the first comparison gives a
  boolean, which the second one reads as 1 or 0.\<close>

definition path_component_in_range :: "jsnum \<Rightarrow> bool" where
  "path_component_in_range num =
     (if js_lt (Num (if js_le (Num 0) num then 1 else 0)) HARDENED then True else False)"

text \<open>Decimal digits of a natural number, and \<open>toString\<close> of a number.\<close>

definition digit_char :: "nat \<Rightarrow> char" where
  "digit_char d = char_of (48 + d)"

fun dec :: "nat \<Rightarrow> string" where
  "dec n = (if n < 10 then [digit_char n] else dec (n div 10) @ [digit_char (n mod 10)])"

declare dec.simps [simp del]

fun js_toString :: "jsnum \<Rightarrow> string" where
  "js_toString NaN = ''NaN''"
| "js_toString (Num n) = (if n < 0 then ''-'' @ dec (nat (- n)) else dec (nat n))"
| "js_toString NegZero = ''0''"
| "js_toString PosInfinity = ''Infinity''"
| "js_toString NegInfinity = ''-Infinity''"

text \<open>\<open>xs.join(sep)\<close> and \<open>s.split(c)\<close> for a one-character separator.\<close>

fun js_join :: "string \<Rightarrow> string list \<Rightarrow> string" where
  "js_join sep [] = []"
| "js_join sep [x] = x"
| "js_join sep (x # y # ys) = x @ sep @ js_join sep (y # ys)"

fun js_split :: "string \<Rightarrow> char \<Rightarrow> string list" where
  "js_split [] c = [[]]"
| "js_split (x # xs) c =
     (if x = c then [] # js_split xs c
      else (case js_split xs c of [] \<Rightarrow> [[x]] | y # ys \<Rightarrow> (x # y) # ys))"

text \<open>The text of one component, the body of the loop of \<open>path2str\<close>.\<close>

definition path_component_str :: "jsnum \<Rightarrow> string" where
  "path_component_str item =
     js_toString (js_and item (js_not HARDENED)) @
     (if truthy (js_and item HARDENED) then ''h'' else [])"

definition path2str :: "jsnum list \<Rightarrow> string" where
  "path2str path = js_join ''/'' (''m'' # map path_component_str path)"

text \<open>
  The double nearest to a natural number: a number below \<open>2 ^ 53\<close> is its own double; a
  larger one keeps its 53 leading bits, rounded to nearest with ties to even, and becomes
  infinite from \<open>2 ^ 1024\<close> on. \<open>bit_width v\<close> is the number of bits of \<open>v\<close>.
\<close>

function bit_width :: "int \<Rightarrow> nat" where
  "bit_width v = (if v \<le> 0 then 0 else Suc (bit_width (v div 2)))"
  by pat_completeness auto
termination
  by (relation "measure nat") auto

declare bit_width.simps [simp del]

definition round_to_double :: "int \<Rightarrow> int" where
  "round_to_double v =
     (if v < 2 ^ 53 then v
      else
        let e = bit_width v - 53;
            q = v div 2 ^ e;
            r = v mod 2 ^ e;
            q' = (if 2 * r > 2 ^ e \<or> (2 * r = 2 ^ e \<and> odd q) then q + 1 else q)
        in q' * 2 ^ e)"

definition to_double :: "bool \<Rightarrow> int \<Rightarrow> jsnum" where
  "to_double neg v =
     (let w = round_to_double v in
      if w = 0 then (if neg then NegZero else Num 0)
      else if w \<ge> 2 ^ 1024 then (if neg then NegInfinity else PosInfinity)
      else Num (if neg then - w else w))"

text \<open>
  \<open>Number.parseInt(s)\<close> with no radix: leading white space is skipped, a sign is read, a
  prefix \<open>0x\<close> or \<open>0X\<close> selects radix 16, and the longest run of digits of the radix is
  the value, as a double with the sign; no digit at all gives \<open>NaN\<close>. Every digit
  counts in the value that is rounded.
\<close>

definition is_space :: "char \<Rightarrow> bool" where
  "is_space c = (of_char c \<in> set [9, 10, 11, 12, 13, 32, 160 :: nat])"

definition digit_val :: "char \<Rightarrow> nat" where
  "digit_val c =
     (let k = of_char c :: nat in
      if 48 \<le> k \<and> k \<le> 57 then k - 48
      else if 97 \<le> k \<and> k \<le> 122 then k - 87
      else if 65 \<le> k \<and> k \<le> 90 then k - 55
      else 36)"

definition parseInt :: "string \<Rightarrow> jsnum" where
  "parseInt s =
     (let s1 = dropWhile is_space s;
          neg = (case s1 of [] \<Rightarrow> False | c # _ \<Rightarrow> c = CHR ''-'');
          s2 = (case s1 of [] \<Rightarrow> [] | c # r \<Rightarrow> if c = CHR ''-'' \<or> c = CHR ''+'' then r else s1);
          hex = (take 2 s2 = ''0x'' \<or> take 2 s2 = ''0X'');
          radix = (if hex then 16 else 10);
          s3 = (if hex then drop 2 s2 else s2);
          ds = takeWhile (\<lambda>c. digit_val c < radix) s3;
          v = foldl (\<lambda>a c. a * int radix + int (digit_val c)) 0 ds
      in if ds = [] then NaN else to_double neg v)"

text \<open>The body of the loop of \<open>str2path\<close> over the pieces of the split, with the list built
  so far.\<close>

definition hardening_markers :: string where
  "hardening_markers = [CHR 0x27] @ ''phHP''"

fun str2path_loop :: "string list \<Rightarrow> jsnum list \<Rightarrow> error + jsnum list" where
  "str2path_loop [] rv = Inr rv"
| "str2path_loop (item # rest) rv =
     (if item = ''m'' then str2path_loop rest rv
      else if item = [] then str2path_loop rest rv
      else if last item \<in> set hardening_markers then
        (if length item < 2 then Inl (Error (''Malformed bip32 path component: '' @ item))
         else
           let num = parseInt (js_slice item 0 (-1)) in
           if \<not> path_component_in_range num
           then Inl (Error (''Hardened path component out of range: '' @ item))
           else str2path_loop rest (rv @ [js_ushr0 (js_or num HARDENED)]))
      else
        let here = parseInt item in
        if \<not> path_component_in_range here
        then Inl (Error (''Non-hardened path component out of range: '' @ item))
        else str2path_loop rest (rv @ [here]))"

definition str2path :: "string \<Rightarrow> error + jsnum list" where
  "str2path path = str2path_loop (js_split path CHR ''/'') []"

text \<open>A well-formed path: every component is an index below \<open>2 ^ 31\<close>, with or without
  the hardened flag \<open>2 ^ 31\<close> added, that is a number from 0 up to \<open>2 ^ 32 - 1\<close>.\<close>

fun well_formed_component :: "jsnum \<Rightarrow> bool" where
  "well_formed_component (Num n) = (0 \<le> n \<and> n < 2 ^ 32)"
| "well_formed_component _ = False"

definition well_formed_path :: "jsnum list \<Rightarrow> bool" where
  "well_formed_path p = list_all well_formed_component p"

section \<open>Buffers from text\<close>

text \<open>\<open>Buffer.from(s)\<close> is the UTF-8 encoding of \<open>s\<close>: one byte for a code unit below 128,
  two for the others below 256.\<close>

definition utf8 :: "string \<Rightarrow> bytes" where
  "utf8 s =
     concat (map (\<lambda>c. let k = of_char c :: nat in
                       if k < 128 then [of_nat k]
                       else [of_nat (192 + k div 64), of_nat (128 + k mod 64)]) s)"

text \<open>\<open>Buffer.from(s, 'hex')\<close> decodes pairs of hexadecimal digits and stops at the first
  pair that is not one; a last single character is dropped.\<close>

fun hex_decode :: "string \<Rightarrow> bytes" where
  "hex_decode (a # b # r) =
     (if digit_val a < 16 \<and> digit_val b < 16
      then of_nat (16 * digit_val a + digit_val b) # hex_decode r else [])"
| "hex_decode _ = []"

definition OPENDIME :: bytes where
  "OPENDIME = utf8 ''OPENDIME''"

section \<open>Responses of the card\<close>

text \<open>The fields the functions read from the responses to the \<open>status\<close>, \<open>read\<close>, \<open>check\<close>
  and \<open>certs\<close> commands.\<close>

record status_resp =
  sr_ver :: string
  sr_card_nonce :: bytes
  sr_pubkey :: bytes
  sr_is_tapsigner :: bool
  sr_slots :: "int list"
  sr_addr :: string

record read_resp =
  rr_pubkey :: bytes
  rr_sig :: bytes

record check_resp =
  auth_sig :: bytes

record certs_resp =
  cert_chain :: "bytes list"

section \<open>Certificate chain\<close>

text \<open>The optional sealed-slot key is \<open>null\<close>, a string of hexadecimal digits or a Buffer.
  A value that is not falsy (anything but \<open>null\<close> and the empty string) is passed through
  \<open>Buffer.from(_, 'hex')\<close>, which copies a Buffer; \<open>None\<close> is a falsy value.\<close>

datatype slot_pubkey = SlotNull | SlotString string | SlotBuffer bytes

fun slot_bytes :: "slot_pubkey \<Rightarrow> bytes option" where
  "slot_bytes SlotNull = None"
| "slot_bytes (SlotString s) = (if s = [] then None else Some (hex_decode s))"
| "slot_bytes (SlotBuffer b) = Some b"

text \<open>The loop over the chain: each signature gives the key that signed the digest of
  the key before it. What \<open>CT_sig_to_pubkey\<close> throws leaves the function.\<close>

fun follow_chain :: "compat \<Rightarrow> bytes \<Rightarrow> bytes list \<Rightarrow> error + bytes" where
  "follow_chain cr pubkey [] = Inr pubkey"
| "follow_chain cr pubkey (signature # rest) =
     (case CT_sig_to_pubkey cr (sha256s cr pubkey) signature of
        Inl e \<Rightarrow> Inl e
      | Inr pk \<Rightarrow> follow_chain cr pk rest)"

text \<open>The message of \<open>verify_certs_ll\<close>: its length test, then the sealed-slot key if
  there is one.\<close>

definition certs_message :: "constants \<Rightarrow> bytes \<Rightarrow> bytes \<Rightarrow> slot_pubkey \<Rightarrow> error + bytes" where
  "certs_message c cnonce my_nonce slot =
     (let msg = OPENDIME @ cnonce @ my_nonce in
      if length msg \<noteq> 8 + CARD_NONCE_SIZE c + USER_NONCE_SIZE c
      then Inl (Error ''Invalid message length'')
      else case slot_bytes slot of
             None \<Rightarrow> Inr msg
           | Some sp \<Rightarrow>
               if length sp \<noteq> 33 then Inl (Error ''Invalid slot pubkey length'')
               else Inr (msg @ sp))"

definition verify_certs_ll ::
  "constants \<Rightarrow> compat \<Rightarrow> bytes \<Rightarrow> bytes \<Rightarrow> bytes \<Rightarrow> bytes list \<Rightarrow> bytes \<Rightarrow> slot_pubkey
     \<Rightarrow> error + bytes" where
  "verify_certs_ll c cr cnonce card_pubkey my_nonce chain signature slot =
     (if length chain < 2 then Inl (Error ''Missing certs'')
      else
        (case certs_message c cnonce my_nonce slot of
           Inl e \<Rightarrow> Inl e
         | Inr msg \<Rightarrow>
             (if \<not> CT_sig_verify cr signature (sha256s cr msg) card_pubkey
              then Inl (Error ''bad sig in when verifying certificates'')
              else
                (case follow_chain cr card_pubkey chain of
                   Inl e \<Rightarrow> Inl e
                 | Inr pubkey \<Rightarrow>
                     (case FACTORY_ROOT_KEYS c of
                        [] \<Rightarrow> Inl TypeError
                      | root # others \<Rightarrow>
                          (if pubkey \<noteq> root
                           then Inl (Error ''Root cert is not from Coinkite. Card is counterfeit.'')
                           else Inr pubkey))))))"

definition verify_certs ::
  "constants \<Rightarrow> compat \<Rightarrow> status_resp \<Rightarrow> check_resp \<Rightarrow> certs_resp \<Rightarrow> bytes \<Rightarrow> slot_pubkey
     \<Rightarrow> error + bytes" where
  "verify_certs c cr st chk certs my_nonce slot =
     (let slot' = (if sr_ver st = ''0.9.0'' then SlotNull else slot)
      in verify_certs_ll c cr (sr_card_nonce st) (sr_pubkey st) my_nonce
           (cert_chain certs) (auth_sig chk) slot')"

section \<open>Recovering a key or an address from a response\<close>

definition recover_pubkey ::
  "constants \<Rightarrow> compat \<Rightarrow> status_resp \<Rightarrow> read_resp \<Rightarrow> bytes \<Rightarrow> bytes \<Rightarrow> error + bytes" where
  "recover_pubkey c cr st rd my_nonce ses_key =
     (if \<not> sr_is_tapsigner st then Inl (Error ''Card is not a Tapsigner'')
      else
        let msg = OPENDIME @ sr_card_nonce st @ my_nonce @ [0] in
        if length msg \<noteq> 8 + CARD_NONCE_SIZE c + USER_NONCE_SIZE c + 1
        then Inl (Error ''Invalid message length'')
        else case xor_bytes (js_slice_from (rr_pubkey rd) 1) ses_key of
          Inl e \<Rightarrow> Inl e
        | Inr x \<Rightarrow>
            let pubkey = js_slice (rr_pubkey rd) 0 1 @ x in
            if \<not> CT_sig_verify cr pubkey (sha256s cr msg) (rr_sig rd)
            then Inl (Error ''Bad sig in recover_pubkey'')
            else Inr pubkey)"

definition render_address :: "compat \<Rightarrow> bytes \<Rightarrow> bool \<Rightarrow> string" where
  "render_address cr pubkey testnet =
     (let pubkey' = (if length pubkey = 32 then CT_priv_to_pubkey cr pubkey else pubkey);
          HRP = (if \<not> testnet then ''bc'' else ''tb'');
          words = bech32_toWords cr (hash160 cr pubkey')
      in bech32_encode cr HRP (0 # words))"

text \<open>\<open>Buffer.from([sl])\<close> is one byte: the low eight bits of the slot number, 0 for
  \<open>undefined\<close>.\<close>

definition slot_byte :: "int list \<Rightarrow> byte" where
  "slot_byte sl = (case js_at sl 0 of None \<Rightarrow> 0 | Some v \<Rightarrow> word_of_int v)"

definition recover_address ::
  "constants \<Rightarrow> compat \<Rightarrow> status_resp \<Rightarrow> read_resp \<Rightarrow> bytes \<Rightarrow> error + (bytes \<times> string)" where
  "recover_address c cr st rd my_nonce =
     (if sr_is_tapsigner st then Inl (Error ''recover_address: tapsigner not supported'')
      else
        let msg = OPENDIME @ sr_card_nonce st @ my_nonce @ [slot_byte (sr_slots st)] in
        if length msg \<noteq> 8 + CARD_NONCE_SIZE c + USER_NONCE_SIZE c + 1
        then Inl (Error ''recover_address: invalid message length'')
        else
          let pubkey = rr_pubkey rd in
          if \<not> CT_sig_verify cr (rr_sig rd) (sha256s cr msg) pubkey
          then Inl (Error ''Bad sig in recover_address'')
          else
            let expect = sr_addr st;
                left = js_slice expect 0 (js_indexOf expect CHR ''_'');
                right = js_slice_from expect (js_lastIndexOf expect CHR ''_'' + 1);
                addr = render_address cr pubkey False
            in if \<not> (startsWith addr left \<and> endsWith addr right \<and>
                      length left = length right \<and> length left = ADDR_TRIM c)
               then Inl (Error ''Corrupt response'')
               else Inr (pubkey, addr))"

text \<open>The window of an expected address, in the words of the specification: the text
  before its first separator and the text after its last one.\<close>

definition expected_prefix :: "string \<Rightarrow> string" where
  "expected_prefix expect = takeWhile (\<lambda>x. x \<noteq> CHR ''_'') expect"

definition expected_suffix :: "string \<Rightarrow> string" where
  "expected_suffix expect = rev (takeWhile (\<lambda>x. x \<noteq> CHR ''_'') (rev expect))"

section \<open>Recoverable signatures\<close>

text \<open>
  The loop of \<open>make_recoverable_sig\<close> over the candidates still to try. The \<open>catch\<close> clause
  continues for a candidate of 2 or more and does nothing else, so after a failed
  recovery of candidate 0 or 1 the body goes on with \<open>pubkey\<close> undefined (\<open>None\<close>);
  \<open>Buffer.from(undefined)\<close> and \<open>undefined.length\<close> throw a \<open>TypeError\<close>. The expected
  address counts when it is neither \<open>null\<close> nor empty, the expected key when it is not
  \<open>null\<close>.
\<close>

fun make_recoverable_sig_loop ::
  "compat \<Rightarrow> bytes \<Rightarrow> bytes \<Rightarrow> string option \<Rightarrow> bytes option \<Rightarrow> bool \<Rightarrow> nat list
     \<Rightarrow> error + bytes" where
  "make_recoverable_sig_loop cr digest sg addr expect_pubkey is_testnet [] =
     Inl (Error ''sig may not be created by that address/pubkey??'')"
| "make_recoverable_sig_loop cr digest sg addr expect_pubkey is_testnet (rec_id # rest) =
     (let rec_sig = of_nat (39 + rec_id) # sg;
          recovered = CT_sig_to_pubkey cr digest rec_sig
      in if isl recovered \<and> rec_id \<ge> 2
         then make_recoverable_sig_loop cr digest sg addr expect_pubkey is_testnet rest
         else
           let pubkey = (case recovered of Inl e \<Rightarrow> None | Inr pk \<Rightarrow> Some pk) in
           if expect_pubkey \<noteq> None \<and> pubkey = None then Inl TypeError
           else if expect_pubkey \<noteq> None \<and> expect_pubkey \<noteq> pubkey
           then make_recoverable_sig_loop cr digest sg addr expect_pubkey is_testnet rest
           else if addr \<noteq> None \<and> addr \<noteq> Some []
           then (case pubkey of
                   None \<Rightarrow> Inl TypeError
                 | Some pk \<Rightarrow>
                     if endsWith (render_address cr pk is_testnet) (the addr) then Inr rec_sig
                     else make_recoverable_sig_loop cr digest sg addr expect_pubkey
                            is_testnet rest)
           else Inr rec_sig)"

definition make_recoverable_sig ::
  "compat \<Rightarrow> bytes \<Rightarrow> bytes \<Rightarrow> string option \<Rightarrow> bytes option \<Rightarrow> bool \<Rightarrow> error + bytes" where
  "make_recoverable_sig cr digest sg addr expect_pubkey is_testnet =
     (if length digest \<noteq> 32 then Inl (Error ''Invalid digest length'')
      else if length sg \<noteq> 64 then Inl (Error ''Invalid sig length'')
      else make_recoverable_sig_loop cr digest sg addr expect_pubkey is_testnet [0, 1, 2, 3])"

section \<open>Session key and masked verification code\<close>






section \<open>Sample responses\<close>

text \<open>Concrete values on which the functions are run below: 16-byte nonces, a 33-byte
  card key, a 64-byte signature, and a chain of two 65-byte signatures whose second names
  the key \<open>k\<close> as its signer (for \<open>demo_compat\<close>).\<close>

definition demo_card_nonce :: bytes where
  "demo_card_nonce = replicate 16 1"

definition demo_my_nonce :: bytes where
  "demo_my_nonce = replicate 16 2"

definition demo_card_pubkey :: bytes where
  "demo_card_pubkey = 2 # replicate 32 5"

definition demo_sig :: bytes where
  "demo_sig = replicate 64 7"

definition demo_chain :: "bytes \<Rightarrow> bytes list" where
  "demo_chain k = [31 # (2 # replicate 32 8) @ replicate 31 0, 31 # k @ replicate 31 0]"

definition demo_status :: status_resp where
  "demo_status =
     \<lparr> sr_ver = ''1.0.0'', sr_card_nonce = demo_card_nonce, sr_pubkey = demo_card_pubkey,
       sr_is_tapsigner = False, sr_slots = [0], sr_addr = ''bc1acfffffff___ffffffffffff'' \<rparr>"

definition demo_read :: read_resp where
  "demo_read = \<lparr> rr_pubkey = demo_card_pubkey, rr_sig = demo_sig \<rparr>"

text \<open>A response of a TAPSIGNER: the key is masked with the session key.\<close>

definition demo_session_key :: bytes where
  "demo_session_key = replicate 32 3"

definition demo_masked_read :: read_resp where
  "demo_masked_read = \<lparr> rr_pubkey = 2 # replicate 32 9, rr_sig = demo_sig \<rparr>"

text \<open>Collaborators whose key recovery always throws.\<close>

definition failing_compat :: compat where
  "failing_compat =
     demo_compat \<lparr> CT_sig_to_pubkey := (\<lambda>d sg. Inl (Error ''recovery failed'')) \<rparr>"

text \<open>The characters \<open>0\<close> to \<open>9\<close>.\<close>

definition is_digit :: "char \<Rightarrow> bool" where
  "is_digit c = (48 \<le> (of_char c :: nat) \<and> (of_char c :: nat) \<le> 57)"

section \<open>Properties\<close>

lemma js_slice_from_drop: "js_slice_from xs (int k) = drop k xs"
  by (cases "k \<le> length xs")
     (simp_all add: js_slice_from_def js_slice_def js_index_def Let_def min_def)

lemma js_slice_window:
  "js_slice xs (int a) (int a + int k) = take k (drop a xs)"
proof (cases "a + k \<le> length xs")
  case True
  then show ?thesis
    by (simp add: js_slice_def js_index_def Let_def nat_add_distrib min_def)
next
  case False
  then show ?thesis
    by (cases "a \<le> length xs")
       (simp_all add: js_slice_def js_index_def Let_def nat_add_distrib min_def)
qed

lemma js_slice_butlast: "js_slice xs 0 (-1) = butlast xs"
proof -
  have "nat (max (int (length xs) - 1) 0) = length xs - 1"
    by (cases xs) simp_all
  then show ?thesis
    by (simp add: js_slice_def js_index_def Let_def butlast_conv_take)
qed

subsection \<open>The fingerprint has 23 characters\<close>

lemma card_pubkey_to_ident_value:
  "length card_pubkey = 33 \<Longrightarrow>
   card_pubkey_to_ident cr card_pubkey =
     (let md = base32Encode cr (drop 8 (sha256s cr card_pubkey))
      in Inr (take 5 md @ ''-'' @ take 5 (drop 5 md) @ ''-'' @
              take 5 (drop 10 md) @ ''-'' @ take 5 (drop 15 md)))"
proof -
  have w: "js_slice md 0 5 = take 5 md" "js_slice md 5 10 = take 5 (drop 5 md)"
    "js_slice md 10 15 = take 5 (drop 10 md)" "js_slice md 15 20 = take 5 (drop 15 md)"
    for md :: string
    using js_slice_window [of md 0 5] js_slice_window [of md 5 5]
      js_slice_window [of md 10 5] js_slice_window [of md 15 5]
    by simp_all
  have d: "js_slice_from h 8 = drop 8 h" for h :: bytes
    using js_slice_from_drop [of h 8] by simp
  assume "length card_pubkey = 33"
  then show ?thesis
    by (simp add: card_pubkey_to_ident_def Let_def w d js_slice_butlast butlast_append)
qed

text \<open>
  C9. For a 33-byte compressed public key, \<open>card_pubkey_to_ident\<close> returns a string of
  exactly 23 characters: four groups of five characters of the base32 text of the digest
  (without its first 8 bytes), separated by dashes. The result is a function of the key
  alone. A key of any other length is refused with an error. The digest is assumed to be
  32 bytes long and the base32 text to have a character for every five bits.
\<close>

theorem card_pubkey_to_ident_23:
  assumes "sha256s_32 cr" and "base32_full cr"
  shows "(length card_pubkey \<noteq> 33 \<longrightarrow>
            card_pubkey_to_ident cr card_pubkey = Inl (Error ''expecting compressed pubkey''))
       \<and> (length card_pubkey = 33 \<longrightarrow>
            (\<exists>g1 g2 g3 g4.
               card_pubkey_to_ident cr card_pubkey =
                 Inr (g1 @ ''-'' @ g2 @ ''-'' @ g3 @ ''-'' @ g4)
             \<and> length g1 = 5 \<and> length g2 = 5 \<and> length g3 = 5 \<and> length g4 = 5
             \<and> g1 @ g2 @ g3 @ g4 =
                 take 20 (base32Encode cr (drop 8 (sha256s cr card_pubkey)))
             \<and> length (g1 @ ''-'' @ g2 @ ''-'' @ g3 @ ''-'' @ g4) = 23))"
proof (intro conjI impI)
  assume "length card_pubkey \<noteq> 33"
  then show "card_pubkey_to_ident cr card_pubkey = Inl (Error ''expecting compressed pubkey'')"
    by (simp add: card_pubkey_to_ident_def)
next
  assume len: "length card_pubkey = 33"
  define md where "md = base32Encode cr (drop 8 (sha256s cr card_pubkey))"
  have "length (drop 8 (sha256s cr card_pubkey)) = 24"
    using assms(1) by (simp add: sha256s_32_def)
  moreover have "(8 * length (drop 8 (sha256s cr card_pubkey)) + 4) div 5 \<le> length md"
    using assms(2) unfolding base32_full_def md_def by blast
  ultimately have long: "20 \<le> length md"
    by simp
  have parts: "take 5 md @ take 5 (drop 5 md) @ take 5 (drop 10 md) @ take 5 (drop 15 md)
      = take 20 md"
  proof -
    have "take 20 md = take 5 md @ take 15 (drop 5 md)"
      using take_add [of 5 15 md] by simp
    also have "take 15 (drop 5 md) = take 5 (drop 5 md) @ take 10 (drop 10 md)"
      using take_add [of 5 10 "drop 5 md"] by simp
    also have "take 10 (drop 10 md) = take 5 (drop 10 md) @ take 5 (drop 15 md)"
      using take_add [of 5 5 "drop 10 md"] by simp
    finally show ?thesis by simp
  qed
  show "\<exists>g1 g2 g3 g4.
      card_pubkey_to_ident cr card_pubkey = Inr (g1 @ ''-'' @ g2 @ ''-'' @ g3 @ ''-'' @ g4)
    \<and> length g1 = 5 \<and> length g2 = 5 \<and> length g3 = 5 \<and> length g4 = 5
    \<and> g1 @ g2 @ g3 @ g4 = take 20 (base32Encode cr (drop 8 (sha256s cr card_pubkey)))
    \<and> length (g1 @ ''-'' @ g2 @ ''-'' @ g3 @ ''-'' @ g4) = 23"
    apply (rule exI [of _ "take 5 md"])
    apply (rule exI [of _ "take 5 (drop 5 md)"])
    apply (rule exI [of _ "take 5 (drop 10 md)"])
    apply (rule exI [of _ "take 5 (drop 15 md)"])
    using long parts card_pubkey_to_ident_value [OF len, of cr]
    by (simp add: md_def Let_def)
qed

theorem card_pubkey_to_ident_23_witness:
  "sha256s_32 demo_compat \<and> base32_full demo_compat
   \<and> length (replicate 33 (2::byte)) = 33
   \<and> card_pubkey_to_ident demo_compat (replicate 33 2) = Inr ''aaaaa-aaaaa-aaaaa-aaaaa''
   \<and> length ''aaaaa-aaaaa-aaaaa-aaaaa'' = 23"
proof -
  have h1: "sha256s_32 demo_compat"
    by (simp add: sha256s_32_def demo_compat_def)
  have h2: "base32_full demo_compat"
    by (simp add: base32_full_def demo_compat_def)
  have "card_pubkey_to_ident demo_compat (replicate 33 2) = Inr ''aaaaa-aaaaa-aaaaa-aaaaa''"
    by code_simp
  with h1 h2 card_pubkey_to_ident_23 [OF h1 h2, of "replicate 33 2"] show ?thesis
    by simp
qed


subsection \<open>The nonce generator returns its first draw\<close>

lemma pick_nonce_first_draw:
  assumes "0 < USER_NONCE_SIZE c"
  shows "pick_nonce c src = map_prod Some id (randomBytes (USER_NONCE_SIZE c) src)"
proof -
  obtain rv src' where r: "randomBytes (USER_NONCE_SIZE c) src = (rv, src')"
    by (cases "randomBytes (USER_NONCE_SIZE c) src")
  then have "length rv = USER_NONCE_SIZE c"
    by (auto simp: randomBytes_def)
  with assms have "js_at rv 0 \<noteq> js_at rv (-1)"
    by (simp add: js_at_def)
  with r show ?thesis
    by (simp add: pick_nonce_def numeral_3_eq_3)
qed

lemma pick_nonce_no_bytes:
  "USER_NONCE_SIZE c = 0 \<Longrightarrow> fst (pick_nonce c src) = None"
  by (simp add: pick_nonce_def numeral_3_eq_3 randomBytes_def js_at_def)

text \<open>
  C4. \<open>pick_nonce\<close> is claimed never to return a degenerate nonce. The test of the loop
  compares \<open>rv[0]\<close> with \<open>rv[-1]\<close>, which is \<open>undefined\<close> for a Buffer, so the first draw
  is returned whatever it holds: with sixteen zero bytes drawn, the nonce returned is
  sixteen zero bytes.
\<close>

theorem pick_nonce_returns_degenerate:
  "fst (pick_nonce demo_constants (\<lambda>i. 0)) = Some (replicate 16 0)
   \<and> degenerate (replicate 16 0)"
  by code_simp

subsection \<open>The range test of the path parser\<close>

lemma path_component_in_range_always: "path_component_in_range num"
  by (simp add: path_component_in_range_def HARDENED_def js_lt_def)

lemma str2path_loop_lone_marker:
  assumes "c \<in> set hardening_markers"
  shows "str2path_loop ([c] # rest) rv = Inl (Error (''Malformed bip32 path component: '' @ [c]))"
proof -
  have "c \<noteq> CHR ''m''"
    using assms by (auto simp: hardening_markers_def)
  with assms show ?thesis
    by simp
qed

lemma str2path_loop_step:
  "str2path_loop (item # rest) rv =
     (if item = ''m'' \<or> item = [] then str2path_loop rest rv
      else if last item \<in> set hardening_markers then
        (if length item < 2 then Inl (Error (''Malformed bip32 path component: '' @ item))
         else str2path_loop rest
                (rv @ [js_ushr0 (js_or (parseInt (js_slice item 0 (-1))) HARDENED)]))
      else str2path_loop rest (rv @ [parseInt item]))"
  by (simp add: path_component_in_range_always Let_def)

lemma str2path_loop_only_malformed:
  "str2path_loop items rv = Inl e \<Longrightarrow>
   \<exists>c \<in> set hardening_markers. e = Error (''Malformed bip32 path component: '' @ [c])"
proof (induction items arbitrary: rv)
  case Nil
  then show ?case by simp
next
  case (Cons item rest)
  consider (skip) "item = ''m'' \<or> item = []"
    | (bad) "item \<noteq> ''m''" "item \<noteq> []" "last item \<in> set hardening_markers" "length item < 2"
    | (hard) "item \<noteq> ''m''" "item \<noteq> []" "last item \<in> set hardening_markers" "\<not> length item < 2"
    | (plain) "item \<noteq> ''m''" "item \<noteq> []" "last item \<notin> set hardening_markers"
    by blast
  then show ?case
  proof cases
    case skip
    then have "str2path_loop rest rv = Inl e"
      using Cons.prems unfolding str2path_loop_step by simp
    then show ?thesis by (rule Cons.IH)
  next
    case bad
    then have i: "item = [last item]"
      by (cases item) auto
    have "e = Error (''Malformed bip32 path component: '' @ item)"
      using Cons.prems bad unfolding str2path_loop_step by simp
    with i bad(3) show ?thesis
      by metis
  next
    case hard
    then have "str2path_loop rest
        (rv @ [js_ushr0 (js_or (parseInt (js_slice item 0 (-1))) HARDENED)]) = Inl e"
      using Cons.prems unfolding str2path_loop_step by simp
    then show ?thesis by (rule Cons.IH)
  next
    case plain
    then have "str2path_loop rest (rv @ [parseInt item]) = Inl e"
      using Cons.prems unfolding str2path_loop_step by simp
    then show ?thesis by (rule Cons.IH)
  qed
qed

lemma str2path_never_range_error:
  "str2path path = Inl e \<Longrightarrow>
   \<exists>c \<in> set hardening_markers. e = Error (''Malformed bip32 path component: '' @ [c])"
  unfolding str2path_def by (rule str2path_loop_only_malformed)

text \<open>
  C7. \<open>str2path\<close> is claimed to refuse every component outside \<open>[0, 2 ^ 31)\<close>. The range
  test \<open>0 <= num < HARDENED\<close> holds for every number, so \<open>2147483648\<close>, \<open>-1\<close> and the
  hardened \<open>4294967295h\<close> are all accepted.
\<close>

theorem str2path_accepts_out_of_range:
  "str2path ''m/2147483648'' = Inr [Num 2147483648]
   \<and> str2path ''m/-1'' = Inr [Num (- 1)]
   \<and> str2path ''m/4294967295h'' = Inr [Num 4294967295]"
  by code_simp

subsection \<open>Bits 0 to 30 and bit 31 of a component\<close>

lemma bit31_iff:
  fixes n :: int
  assumes "0 \<le> n" "n < 2 ^ 32"
  shows "bit n 31 \<longleftrightarrow> 2 ^ 31 \<le> n"
proof -
  have "n div 2 ^ 31 = (if 2 ^ 31 \<le> n then 1 else 0)"
    using assms by (auto intro!: int_div_pos_eq [where r = "n - 2^31"])
  then show ?thesis
    by (simp add: bit_iff_odd)
qed

lemma and_low31:
  fixes n :: int
  assumes "0 \<le> n" "n < 2 ^ 32"
  shows "sint ((word_of_int n :: 32 word) AND 0x7FFFFFFF) = n mod 2 ^ 31"
proof -
  have m: "(0x7FFFFFFF :: int) = mask 31"
    by (simp add: mask_eq_exp_minus_1)
  have "uint ((word_of_int n :: 32 word) AND 0x7FFFFFFF) = take_bit 32 n AND 0x7FFFFFFF"
    by (simp add: uint_and uint_word_of_int_eq)
  also have "take_bit 32 n = n"
    using assms by (simp add: take_bit_int_eq_self)
  also have "n AND 0x7FFFFFFF = take_bit 31 n"
    unfolding m by (simp add: take_bit_eq_mask)
  finally have u: "uint ((word_of_int n :: 32 word) AND 0x7FFFFFFF) = n mod 2 ^ 31"
    by (simp add: take_bit_eq_mod)
  have "sint ((word_of_int n :: 32 word) AND 0x7FFFFFFF) = signed_take_bit 31 (n mod 2 ^ 31)"
    by (simp add: sint_uint u)
  also have "\<dots> = n mod 2 ^ 31"
    by (rule signed_take_bit_int_eq_self) (simp_all add: order_trans [of _ 0])
  finally show ?thesis .
qed

lemma and_flag31:
  fixes n :: int
  assumes "0 \<le> n" "n < 2 ^ 32"
  shows "sint ((word_of_int n :: 32 word) AND 0x80000000) \<noteq> 0 \<longleftrightarrow> 2 ^ 31 \<le> n"
proof -
  have h: "(0x80000000 :: 32 word) = 2 ^ 31"
    by simp
  have "sint ((word_of_int n :: 32 word) AND 0x80000000) \<noteq> 0
      \<longleftrightarrow> (word_of_int n :: 32 word) AND 2 ^ 31 \<noteq> 0"
    unfolding h by (simp add: signed_eq_0_iff)
  also have "\<dots> \<longleftrightarrow> bit (word_of_int n :: 32 word) 31"
    using and_exp_eq_0_iff_not_bit [of "word_of_int n :: 32 word" 31] by blast
  also have "\<dots> \<longleftrightarrow> bit n 31"
    by (simp add: bit_word_of_int_iff)
  finally show ?thesis
    using bit31_iff [OF assms] by simp
qed

lemma or_flag31:
  fixes v :: int
  assumes "0 \<le> v" "v < 2 ^ 31"
  shows "uint ((word_of_int v :: 32 word) OR 0x80000000) = v + 2 ^ 31"
proof -
  have v32: "v < 2 ^ 32"
    using assms(2) by simp
  have "\<not> bit v 31"
    using bit31_iff [OF assms(1) v32] assms(2) by simp
  then have z: "v AND 2 ^ 31 = 0"
    using and_exp_eq_0_iff_not_bit [of v 31] by blast
  have "uint ((word_of_int v :: 32 word) OR 0x80000000) = take_bit 32 v OR 2 ^ 31"
    by (simp add: uint_or uint_word_of_int_eq)
  also have "take_bit 32 v = v"
    using assms(1) v32 by (simp add: take_bit_int_eq_self)
  also have "v OR 2 ^ 31 = v + 2 ^ 31"
    using disjunctive_add_eq_or [OF z] by simp
  finally show ?thesis .
qed

subsection \<open>Decimal text and \<open>parseInt\<close>\<close>

lemma is_digit_digit_char: "d < 10 \<Longrightarrow> is_digit (digit_char d)"
  by (simp add: is_digit_def digit_char_def)

lemma digit_val_digit_char: "d < 10 \<Longrightarrow> digit_val (digit_char d) = d"
  by (simp add: digit_val_def digit_char_def Let_def)

lemma dec_digits: "\<forall>c \<in> set (dec n). is_digit c"
proof (induction n rule: dec.induct)
  case (1 n)
  show ?case
  proof (cases "n < 10")
    case True
    then show ?thesis
      by (subst dec.simps) (simp add: is_digit_digit_char)
  next
    case False
    with 1 show ?thesis
      by (subst dec.simps) (simp add: is_digit_digit_char)
  qed
qed

lemma dec_nonempty: "dec n \<noteq> []"
  by (subst dec.simps) simp

lemma dec_value: "foldl (\<lambda>a c. a * 10 + int (digit_val c)) 0 (dec n) = int n"
proof (induction n rule: dec.induct)
  case (1 n)
  show ?case
  proof (cases "n < 10")
    case True
    then show ?thesis
      by (subst dec.simps) (simp add: digit_val_digit_char)
  next
    case False
    then have "foldl (\<lambda>a c. a * 10 + int (digit_val c)) 0 (dec n)
        = int (n div 10) * 10 + int (n mod 10)"
      using 1 by (subst dec.simps) (simp add: digit_val_digit_char)
    then show ?thesis
      by (simp add: zdiv_int zmod_int)
  qed
qed

lemma is_digit_facts:
  assumes "is_digit c"
  shows "digit_val c < 10" "\<not> is_space c" "c \<noteq> CHR ''-''" "c \<noteq> CHR ''+''"
    "c \<noteq> CHR ''x''" "c \<noteq> CHR ''X''" "c \<noteq> CHR ''/''" "c \<noteq> CHR ''m''"
    "c \<notin> set hardening_markers"
  using assms
  by (auto simp: is_digit_def digit_val_def is_space_def hardening_markers_def Let_def)

lemma parseInt_digits:
  assumes "ds \<noteq> []" "\<forall>c \<in> set ds. is_digit c"
  shows "parseInt ds = to_double False (foldl (\<lambda>a c. a * 10 + int (digit_val c)) 0 ds)"
proof -
  obtain c r where ds: "ds = c # r"
    using assms(1) by (cases ds) auto
  have c: "is_digit c"
    using assms(2) ds by simp
  have nohex: "take 2 ds \<noteq> ''0x''" "take 2 ds \<noteq> ''0X''"
  proof -
    show "take 2 ds \<noteq> ''0x''"
    proof
      assume "take 2 ds = ''0x''"
      then have "CHR ''x'' \<in> set ds"
        by (metis in_set_takeD list.set_intros(1,2))
      then show False
        using assms(2) is_digit_facts(5) by blast
    qed
    show "take 2 ds \<noteq> ''0X''"
    proof
      assume "take 2 ds = ''0X''"
      then have "CHR ''X'' \<in> set ds"
        by (metis in_set_takeD list.set_intros(1,2))
      then show False
        using assms(2) is_digit_facts(6) by blast
    qed
  qed
  have tw: "takeWhile (\<lambda>c. digit_val c < 10) ds = ds"
    using assms(2) by (simp add: is_digit_facts(1))
  have dw: "dropWhile is_space ds = ds"
    using c ds by (simp add: is_digit_facts(2))
  have neg: "(case ds of [] \<Rightarrow> False | c # _ \<Rightarrow> c = CHR ''-'') = False"
    using c by (simp add: ds is_digit_facts(3))
  have s2: "(case ds of [] \<Rightarrow> [] | c # r \<Rightarrow> if c = CHR ''-'' \<or> c = CHR ''+'' then r else ds) = ds"
    using c by (simp add: ds is_digit_facts(3,4))
  show ?thesis
    unfolding parseInt_def Let_def dw neg s2
    using nohex assms(1) by (simp add: tw)
qed

lemma to_double_small: "0 \<le> v \<Longrightarrow> v < 2 ^ 53 \<Longrightarrow> to_double False v = Num v"
  by (simp add: to_double_def round_to_double_def Let_def)

lemma parseInt_dec: "int n < 2 ^ 53 \<Longrightarrow> parseInt (dec n) = Num (int n)"
  using parseInt_digits [OF dec_nonempty dec_digits, of n]
  by (simp add: dec_value to_double_small)

text \<open>Beyond \<open>2 ^ 53\<close> the parser gives the nearest double, and \<open>-0\<close> keeps its sign.\<close>

lemma str2path_rounds_to_double:
  "str2path ''m/9007199254740993/-0'' = Inr [Num 9007199254740992, NegZero]"
  by code_simp

subsection \<open>Splitting what was joined\<close>

lemma js_split_no_sep: "c \<notin> set x \<Longrightarrow> js_split x c = [x]"
  by (induction x) auto

lemma js_split_append_sep:
  "c \<notin> set x \<Longrightarrow> js_split (x @ c # rest) c = x # js_split rest c"
  by (induction x) auto

lemma js_split_join:
  "xs \<noteq> [] \<Longrightarrow> \<forall>x \<in> set xs. CHR ''/'' \<notin> set x \<Longrightarrow>
   js_split (js_join ''/'' xs) CHR ''/'' = xs"
proof (induction "''/''" xs rule: js_join.induct)
  case 1
  then show ?case by simp
next
  case (2 x)
  then show ?case by (simp add: js_split_no_sep)
next
  case (3 x y ys)
  then show ?case
    by (simp add: js_split_append_sep)
qed

lemma path_component_str_wf:
  assumes "0 \<le> n" "n < 2 ^ 32"
  shows "path_component_str (Num n) =
           dec (nat (n mod 2 ^ 31)) @ (if 2 ^ 31 \<le> n then ''h'' else [])"
proof -
  have nh: "js_not HARDENED = Num 0x7FFFFFFF"
    by (simp add: js_not_def HARDENED_def)
  have a: "js_and (Num n) (Num 0x7FFFFFFF) = Num (n mod 2 ^ 31)"
    using and_low31 [OF assms] by (simp add: js_and_def)
  have b: "truthy (js_and (Num n) HARDENED) \<longleftrightarrow> 2 ^ 31 \<le> n"
    using and_flag31 [OF assms] by (simp add: js_and_def HARDENED_def)
  have "0 \<le> n mod 2 ^ 31"
    by simp
  then show ?thesis
    unfolding path_component_str_def nh a b by simp
qed

lemma str2path_loop_plain:
  assumes "0 \<le> n" "n < 2 ^ 32"
  shows "str2path_loop (dec (nat n) # rest) rv = str2path_loop rest (rv @ [Num n])"
proof -
  let ?item = "dec (nat n)"
  have d: "\<forall>c \<in> set ?item. is_digit c"
    by (rule dec_digits)
  have ne: "?item \<noteq> []"
    by (rule dec_nonempty)
  then have "last ?item \<in> set ?item"
    by simp
  then have l: "last ?item \<notin> set hardening_markers"
    using d is_digit_facts(9) by blast
  have m: "?item \<noteq> ''m''"
    using d is_digit_facts(8) by (metis list.set_intros(1))
  have "int (nat n) < 2 ^ 53"
    using assms by simp
  then have p: "parseInt ?item = Num n"
    using assms(1) parseInt_dec [of "nat n"] by simp
  have r: "path_component_in_range (Num n)"
    by (rule path_component_in_range_always)
  show ?thesis
    using ne l m by (simp add: p r Let_def)
qed

lemma str2path_loop_hardened:
  assumes "0 \<le> v" "v < 2 ^ 31"
  shows "str2path_loop ((dec (nat v) @ ''h'') # rest) rv
       = str2path_loop rest (rv @ [Num (v + 2 ^ 31)])"
proof -
  let ?item = "dec (nat v) @ ''h''"
  have d: "\<forall>c \<in> set (dec (nat v)). is_digit c"
    by (rule dec_digits)
  have ne: "dec (nat v) \<noteq> []"
    by (rule dec_nonempty)
  then have len: "\<not> length ?item < 2"
    by (cases "dec (nat v)") simp_all
  have l: "last ?item \<in> set hardening_markers"
    by (simp add: hardening_markers_def)
  have m: "?item \<noteq> ''m''"
    using ne by (cases "dec (nat v)") simp_all
  have "int (nat v) < 2 ^ 53"
    using assms by simp
  then have p: "parseInt (js_slice ?item 0 (-1)) = Num v"
    using assms(1) parseInt_dec [of "nat v"]
    by (simp add: js_slice_butlast butlast_append)
  have r: "path_component_in_range (Num v)"
    by (rule path_component_in_range_always)
  have h: "js_ushr0 (js_or (Num v) HARDENED) = Num (v + 2 ^ 31)"
  proof -
    have "uint ((word_of_int v :: 32 word) OR 0x80000000) = v + 2 ^ 31"
      by (rule or_flag31 [OF assms])
    then show ?thesis
      by (simp add: js_ushr0_def js_or_def HARDENED_def)
  qed
  show ?thesis
    using len l m by (simp add: p r h Let_def)
qed

lemma str2path_loop_component:
  assumes "well_formed_component item"
  shows "str2path_loop (path_component_str item # rest) rv = str2path_loop rest (rv @ [item])"
proof -
  obtain n where item: "item = Num n" and n: "0 \<le> n" "n < 2 ^ 32"
    using assms by (cases item) auto
  show ?thesis
  proof (cases "2 ^ 31 \<le> n")
    case False
    then have "n mod 2 ^ 31 = n"
      using n by simp
    with False have c: "path_component_str (Num n) = dec (nat n)"
      by (simp add: path_component_str_wf [OF n])
    show ?thesis
      unfolding item c by (rule str2path_loop_plain [OF n])
  next
    case True
    define v where "v = n - 2 ^ 31"
    have v: "0 \<le> v" "v < 2 ^ 31" and nv: "n = v + 2 ^ 31"
      using True n by (simp_all add: v_def)
    have "n mod 2 ^ 31 = v"
      using v by (simp add: nv)
    with True have c: "path_component_str (Num n) = dec (nat v) @ ''h''"
      by (simp add: path_component_str_wf [OF n])
    show ?thesis
      unfolding item c unfolding nv by (rule str2path_loop_hardened [OF v])
  qed
qed

lemma str2path_loop_m: "str2path_loop (''m'' # rest) rv = str2path_loop rest rv"
  by simp

lemma str2path_loop_components:
  "well_formed_path p \<Longrightarrow> str2path_loop (map path_component_str p) rv = Inr (rv @ p)"
proof (induction p arbitrary: rv)
  case Nil
  then show ?case by simp
next
  case (Cons item p)
  then have "well_formed_component item" "well_formed_path p"
    by (simp_all add: well_formed_path_def)
  then show ?case
    using Cons.IH [of "rv @ [item]"]
    by (simp add: str2path_loop_component del: str2path_loop.simps)
qed

lemma path_component_str_no_slash:
  assumes "well_formed_component item"
  shows "CHR ''/'' \<notin> set (path_component_str item)"
proof -
  obtain n where item: "item = Num n" and n: "0 \<le> n" "n < 2 ^ 32"
    using assms by (cases item) auto
  have "CHR ''/'' \<notin> set (dec k)" for k
    using dec_digits [of k] is_digit_facts(7) by blast
  then show ?thesis
    by (simp add: item path_component_str_wf [OF n])
qed


text \<open>
  C8. For every well-formed path \<open>p\<close> (each component an index below \<open>2 ^ 31\<close>, with or
  without the hardened flag), parsing the text of \<open>p\<close> gives \<open>p\<close> back.
\<close>

theorem str2path_path2str:
  assumes "well_formed_path p"
  shows "str2path (path2str p) = Inr p"
proof -
  have "\<forall>x \<in> set (''m'' # map path_component_str p). CHR ''/'' \<notin> set x"
    using assms path_component_str_no_slash
    by (auto simp: well_formed_path_def list_all_iff)
  then have "js_split (path2str p) CHR ''/'' = ''m'' # map path_component_str p"
    unfolding path2str_def by (intro js_split_join) simp_all
  then have "str2path (path2str p) = str2path_loop (map path_component_str p) []"
    by (simp add: str2path_def str2path_loop_m del: str2path_loop.simps)
  then show ?thesis
    using str2path_loop_components [OF assms, of "[]"] by simp
qed

theorem str2path_path2str_witness:
  "well_formed_path [Num 84, Num 2147483732, Num 0, Num 2147483649]
   \<and> path2str [Num 84, Num 2147483732, Num 0, Num 2147483649] = ''m/84/84h/0/1h''
   \<and> str2path ''m/84/84h/0/1h'' = Inr [Num 84, Num 2147483732, Num 0, Num 2147483649]"
proof -
  have w: "well_formed_path [Num 84, Num 2147483732, Num 0, Num 2147483649]"
    by (simp add: well_formed_path_def)
  have s: "path2str [Num 84, Num 2147483732, Num 0, Num 2147483649] = ''m/84/84h/0/1h''"
    by code_simp
  have t: "str2path ''m/84/84h/0/1h'' = Inr [Num 84, Num 2147483732, Num 0, Num 2147483649]"
    using str2path_path2str [OF w] unfolding s .
  show ?thesis
    using w s t by (intro conjI)
qed


subsection \<open>The certificate chain\<close>

lemma certs_message_null:
  "certs_message c cnonce my_nonce SlotNull =
     (if length (OPENDIME @ cnonce @ my_nonce) \<noteq> 8 + CARD_NONCE_SIZE c + USER_NONCE_SIZE c
      then Inl (Error ''Invalid message length'')
      else Inr (OPENDIME @ cnonce @ my_nonce))"
  by (simp add: certs_message_def Let_def)

text \<open>What \<open>verify_certs_ll\<close> returns: \<open>Missing certs\<close> for a chain of fewer than two
  signatures; and, when the message is well framed, the authentication signature verifies
  and every link is walked, the key recovered last if it is equal to the first entry of
  \<open>FACTORY_ROOT_KEYS\<close>, and \<open>Root cert is not from Coinkite. Card is counterfeit.\<close> if it
  is not.\<close>

lemma verify_certs_ll_outcomes:
  "(length chain < 2 \<longrightarrow>
      verify_certs_ll c cr cnonce card_pubkey my_nonce chain signature slot =
        Inl (Error ''Missing certs''))
 \<and> (2 \<le> length chain
      \<and> certs_message c cnonce my_nonce slot = Inr msg
      \<and> CT_sig_verify cr signature (sha256s cr msg) card_pubkey
      \<and> follow_chain cr card_pubkey chain = Inr final
      \<and> FACTORY_ROOT_KEYS c = root # others \<longrightarrow>
      verify_certs_ll c cr cnonce card_pubkey my_nonce chain signature slot =
        (if final = root then Inr root
         else Inl (Error ''Root cert is not from Coinkite. Card is counterfeit.'')))"
  by (simp add: verify_certs_ll_def)

lemma verify_certs_ll_first_root_accepted:
  "2 \<le> length (demo_chain (3 # replicate 32 1))
   \<and> certs_message demo_constants demo_card_nonce demo_my_nonce SlotNull
       = Inr (OPENDIME @ demo_card_nonce @ demo_my_nonce)
   \<and> CT_sig_verify demo_compat demo_sig
        (sha256s demo_compat (OPENDIME @ demo_card_nonce @ demo_my_nonce)) demo_card_pubkey
   \<and> follow_chain demo_compat demo_card_pubkey (demo_chain (3 # replicate 32 1))
       = Inr (3 # replicate 32 1)
   \<and> FACTORY_ROOT_KEYS demo_constants = [3 # replicate 32 1, 2 # replicate 32 9]
   \<and> verify_certs_ll demo_constants demo_compat demo_card_nonce demo_card_pubkey
        demo_my_nonce (demo_chain (3 # replicate 32 1)) demo_sig SlotNull
       = Inr (3 # replicate 32 1)"
proof -
  have h1: "2 \<le> length (demo_chain (3 # replicate 32 1))"
    by (simp add: demo_chain_def)
  have h2: "certs_message demo_constants demo_card_nonce demo_my_nonce SlotNull
      = Inr (OPENDIME @ demo_card_nonce @ demo_my_nonce)"
    by code_simp
  have h3: "CT_sig_verify demo_compat demo_sig
      (sha256s demo_compat (OPENDIME @ demo_card_nonce @ demo_my_nonce)) demo_card_pubkey"
    by code_simp
  have h4: "follow_chain demo_compat demo_card_pubkey (demo_chain (3 # replicate 32 1))
      = Inr (3 # replicate 32 1)"
    by code_simp
  have h5: "FACTORY_ROOT_KEYS demo_constants = [3 # replicate 32 1, 2 # replicate 32 9]"
    by (simp add: demo_constants_def)
  have "verify_certs_ll demo_constants demo_compat demo_card_nonce demo_card_pubkey
        demo_my_nonce (demo_chain (3 # replicate 32 1)) demo_sig SlotNull
      = (if (3 # replicate 32 1 :: bytes) = 3 # replicate 32 1 then Inr (3 # replicate 32 1)
         else Inl (Error ''Root cert is not from Coinkite. Card is counterfeit.''))"
    using verify_certs_ll_outcomes
      [where chain = "demo_chain (3 # replicate 32 1)" and c = demo_constants
         and cr = demo_compat and cnonce = demo_card_nonce and card_pubkey = demo_card_pubkey
         and my_nonce = demo_my_nonce and signature = demo_sig and slot = SlotNull
         and msg = "OPENDIME @ demo_card_nonce @ demo_my_nonce"
         and final = "3 # replicate 32 1" and root = "3 # replicate 32 1"
         and others = "[2 # replicate 32 9]"]
      h1 h2 h3 h4 h5
    by blast
  then have h6: "verify_certs_ll demo_constants demo_compat demo_card_nonce demo_card_pubkey
        demo_my_nonce (demo_chain (3 # replicate 32 1)) demo_sig SlotNull
      = Inr (3 # replicate 32 1)"
    by (simp only: if_True refl)
  show ?thesis
    using h1 h2 h3 h4 h5 h6 by (intro conjI)
qed

text \<open>With a single trusted key the certificate chain behaves as specified on every
  input: a walk that ends at a trusted key succeeds and returns it, any other is refused
  as counterfeit.\<close>

lemma verify_certs_ll_single_root:
  assumes "2 \<le> length chain"
    and "certs_message c cnonce my_nonce slot = Inr msg"
    and "CT_sig_verify cr signature (sha256s cr msg) card_pubkey"
    and "follow_chain cr card_pubkey chain = Inr final"
    and "FACTORY_ROOT_KEYS c = [root]"
  shows "verify_certs_ll c cr cnonce card_pubkey my_nonce chain signature slot =
           (if final \<in> set (FACTORY_ROOT_KEYS c) then Inr final
            else Inl (Error ''Root cert is not from Coinkite. Card is counterfeit.''))"
  using assms by (simp add: verify_certs_ll_def)

text \<open>
  C1. \<open>verify_certs_ll\<close> is claimed to succeed, and to return the root key, for every
  chain whose walk ends at a trusted factory root key. It compares the key recovered last
  with \<open>FACTORY_ROOT_KEYS[0]\<close> only: with two trusted keys, a chain that is long enough,
  whose authentication signature verifies and whose walk ends at the second trusted key
  is refused with \<open>Root cert is not from Coinkite. Card is counterfeit.\<close>
\<close>

theorem verify_certs_ll_second_root_rejected:
  "2 # replicate 32 9 \<in> set (FACTORY_ROOT_KEYS demo_constants)
   \<and> 2 \<le> length (demo_chain (2 # replicate 32 9))
   \<and> certs_message demo_constants demo_card_nonce demo_my_nonce SlotNull
       = Inr (OPENDIME @ demo_card_nonce @ demo_my_nonce)
   \<and> CT_sig_verify demo_compat demo_sig
        (sha256s demo_compat (OPENDIME @ demo_card_nonce @ demo_my_nonce)) demo_card_pubkey
   \<and> follow_chain demo_compat demo_card_pubkey (demo_chain (2 # replicate 32 9))
       = Inr (2 # replicate 32 9)
   \<and> verify_certs_ll demo_constants demo_compat demo_card_nonce demo_card_pubkey
        demo_my_nonce (demo_chain (2 # replicate 32 9)) demo_sig SlotNull
       = Inl (Error ''Root cert is not from Coinkite. Card is counterfeit.'')"
  by code_simp

text \<open>
  C10. For a status response whose version is \<open>0.9.0\<close>, \<open>verify_certs\<close> ignores the
  sealed-slot key it is given: the result is that of the call with no slot key, and the
  message that is verified is the prefix followed by the two nonces, with no slot key.
\<close>

theorem verify_certs_v090_ignores_slot:
  assumes "sr_ver st = ''0.9.0''"
  shows "verify_certs c cr st chk certs my_nonce slot
           = verify_certs c cr st chk certs my_nonce SlotNull
       \<and> verify_certs c cr st chk certs my_nonce slot
           = verify_certs_ll c cr (sr_card_nonce st) (sr_pubkey st) my_nonce
               (cert_chain certs) (auth_sig chk) SlotNull
       \<and> certs_message c (sr_card_nonce st) my_nonce
            (if sr_ver st = ''0.9.0'' then SlotNull else slot)
           = (if length (OPENDIME @ sr_card_nonce st @ my_nonce)
                   \<noteq> 8 + CARD_NONCE_SIZE c + USER_NONCE_SIZE c
              then Inl (Error ''Invalid message length'')
              else Inr (OPENDIME @ sr_card_nonce st @ my_nonce))"
  using assms by (simp add: verify_certs_def certs_message_null)

theorem verify_certs_v090_ignores_slot_witness:
  "sr_ver (demo_status \<lparr> sr_ver := ''0.9.0'' \<rparr>) = ''0.9.0''
   \<and> verify_certs demo_constants demo_compat (demo_status \<lparr> sr_ver := ''0.9.0'' \<rparr>)
        \<lparr> auth_sig = demo_sig \<rparr> \<lparr> cert_chain = demo_chain (3 # replicate 32 1) \<rparr>
        demo_my_nonce (SlotString ''zz'')
       = Inr (3 # replicate 32 1)
   \<and> verify_certs demo_constants demo_compat (demo_status \<lparr> sr_ver := ''0.9.0'' \<rparr>)
        \<lparr> auth_sig = demo_sig \<rparr> \<lparr> cert_chain = demo_chain (3 # replicate 32 1) \<rparr>
        demo_my_nonce SlotNull
       = Inr (3 # replicate 32 1)
   \<and> verify_certs demo_constants demo_compat demo_status
        \<lparr> auth_sig = demo_sig \<rparr> \<lparr> cert_chain = demo_chain (3 # replicate 32 1) \<rparr>
        demo_my_nonce (SlotString ''zz'')
       = Inl (Error ''Invalid slot pubkey length'')"
proof -
  have h: "sr_ver (demo_status \<lparr> sr_ver := ''0.9.0'' \<rparr>) = ''0.9.0''"
    by simp
  have n: "verify_certs demo_constants demo_compat (demo_status \<lparr> sr_ver := ''0.9.0'' \<rparr>)
        \<lparr> auth_sig = demo_sig \<rparr> \<lparr> cert_chain = demo_chain (3 # replicate 32 1) \<rparr>
        demo_my_nonce SlotNull
       = Inr (3 # replicate 32 1)"
    by code_simp
  have z: "verify_certs demo_constants demo_compat (demo_status \<lparr> sr_ver := ''0.9.0'' \<rparr>)
        \<lparr> auth_sig = demo_sig \<rparr> \<lparr> cert_chain = demo_chain (3 # replicate 32 1) \<rparr>
        demo_my_nonce (SlotString ''zz'')
       = Inr (3 # replicate 32 1)"
    using verify_certs_v090_ignores_slot [OF h, THEN conjunct1,
        of demo_constants demo_compat "\<lparr> auth_sig = demo_sig \<rparr>"
           "\<lparr> cert_chain = demo_chain (3 # replicate 32 1) \<rparr>" demo_my_nonce "SlotString ''zz''"]
    unfolding n .
  have o: "verify_certs demo_constants demo_compat demo_status
        \<lparr> auth_sig = demo_sig \<rparr> \<lparr> cert_chain = demo_chain (3 # replicate 32 1) \<rparr>
        demo_my_nonce (SlotString ''zz'')
       = Inl (Error ''Invalid slot pubkey length'')"
    by code_simp
  show ?thesis
    using h z n o by (intro conjI)
qed

subsection \<open>The window of the expected address\<close>

lemma js_indexOf_takeWhile:
  "js_indexOf xs c = (if c \<in> set xs then int (length (takeWhile (\<lambda>x. x \<noteq> c) xs)) else - 1)"
  by (induction xs) (auto simp: Let_def)

lemma takeWhile_before_member:
  "c \<in> set xs \<Longrightarrow> length (takeWhile (\<lambda>x. x \<noteq> c) xs) < length xs"
  by (induction xs) auto

lemma js_slice_take: "js_slice xs 0 (int k) = take k xs"
  using js_slice_window [of xs 0 k] by simp

lemma left_with_separator:
  assumes "c \<in> set xs"
  shows "js_slice xs 0 (js_indexOf xs c) = takeWhile (\<lambda>x. x \<noteq> c) xs"
  using assms by (simp add: js_indexOf_takeWhile js_slice_take takeWhile_eq_take [symmetric])

lemma right_with_separator:
  assumes "c \<in> set xs"
  shows "js_slice_from xs (js_lastIndexOf xs c + 1) = rev (takeWhile (\<lambda>x. x \<noteq> c) (rev xs))"
proof -
  define k where "k = length (takeWhile (\<lambda>x. x \<noteq> c) (rev xs))"
  have "k < length xs"
    using assms takeWhile_before_member [of c "rev xs"] by (simp add: k_def)
  then have i: "js_lastIndexOf xs c + 1 = int (length xs - k)"
    using assms by (simp add: js_lastIndexOf_def js_indexOf_takeWhile k_def Let_def)
  have "drop (length xs - k) xs = rev (take k (rev xs))"
    by (simp add: rev_take)
  also have "take k (rev xs) = takeWhile (\<lambda>x. x \<noteq> c) (rev xs)"
    by (simp add: k_def takeWhile_eq_take [symmetric])
  finally show ?thesis
    by (simp add: i js_slice_from_drop)
qed

lemma left_without_separator:
  assumes "c \<notin> set xs"
  shows "js_slice xs 0 (js_indexOf xs c) = butlast xs"
  using assms by (simp add: js_indexOf_takeWhile js_slice_butlast)

lemma right_without_separator:
  assumes "c \<notin> set xs"
  shows "js_slice_from xs (js_lastIndexOf xs c + 1) = xs"
  using assms js_slice_from_drop [of xs 0]
  by (simp add: js_lastIndexOf_def js_indexOf_takeWhile)

lemma recover_address_past_signature:
  assumes "\<not> sr_is_tapsigner st"
    and "length (OPENDIME @ sr_card_nonce st @ my_nonce @ [slot_byte (sr_slots st)])
           = 8 + CARD_NONCE_SIZE c + USER_NONCE_SIZE c + 1"
    and "CT_sig_verify cr (rr_sig rd)
           (sha256s cr (OPENDIME @ sr_card_nonce st @ my_nonce @ [slot_byte (sr_slots st)]))
           (rr_pubkey rd)"
  shows "recover_address c cr st rd my_nonce =
     (let expect = sr_addr st;
          left = js_slice expect 0 (js_indexOf expect CHR ''_'');
          right = js_slice_from expect (js_lastIndexOf expect CHR ''_'' + 1);
          addr = render_address cr (rr_pubkey rd) False
      in if startsWith addr left \<and> endsWith addr right \<and>
            length left = length right \<and> length left = ADDR_TRIM c
         then Inr (rr_pubkey rd, addr) else Inl (Error ''Corrupt response''))"
  using assms unfolding recover_address_def Let_def by simp

lemma window_with_separator:
  assumes "CHR ''_'' \<in> set expect"
  shows "js_slice expect 0 (js_indexOf expect CHR ''_'') = expected_prefix expect"
    and "js_slice_from expect (js_lastIndexOf expect CHR ''_'' + 1) = expected_suffix expect"
  using assms
  by (simp_all add: expected_prefix_def expected_suffix_def
      left_with_separator right_with_separator)

lemma window_without_separator:
  assumes "CHR ''_'' \<notin> set expect"
    and "length (js_slice expect 0 (js_indexOf expect CHR ''_''))
       = length (js_slice_from expect (js_lastIndexOf expect CHR ''_'' + 1))"
  shows "expect = []"
proof -
  have "length (butlast expect) = length expect"
    using assms(2)
    unfolding left_without_separator [OF assms(1)] right_without_separator [OF assms(1)] .
  then have "length expect - 1 = length expect"
    by simp
  then show ?thesis
    by (cases expect) simp_all
qed

lemma window_check:
  fixes expect addr :: string
  assumes "startsWith addr (js_slice expect 0 (js_indexOf expect CHR ''_''))"
    and "endsWith addr (js_slice_from expect (js_lastIndexOf expect CHR ''_'' + 1))"
    and "length (js_slice expect 0 (js_indexOf expect CHR ''_''))
       = length (js_slice_from expect (js_lastIndexOf expect CHR ''_'' + 1))"
    and "length (js_slice expect 0 (js_indexOf expect CHR ''_'')) = t"
  shows "startsWith addr (expected_prefix expect) \<and> endsWith addr (expected_suffix expect)
       \<and> length (expected_prefix expect) = t \<and> length (expected_suffix expect) = t"
proof (cases "CHR ''_'' \<in> set expect")
  case True
  show ?thesis
    using assms unfolding window_with_separator [OF True] by simp
next
  case False
  have e: "expect = []"
    by (rule window_without_separator [OF False assms(3)])
  have "js_slice expect 0 (js_indexOf expect CHR ''_'') = []"
    unfolding left_without_separator [OF False] by (simp add: e)
  with assms(4) have "t = 0"
    by simp
  then show ?thesis
    by (simp add: e expected_prefix_def expected_suffix_def startsWith_def endsWith_def)
qed

text \<open>
  C2. For a status response that is not a TAPSIGNER's, a well-framed message and a
  signature that verifies, \<open>recover_address\<close> succeeds only if the rendered address
  starts with the text of the expected address before its first separator, ends with the
  text after its last separator, and both texts have the length \<open>ADDR_TRIM\<close>; when any of
  these fails the call fails with \<open>Corrupt response\<close>. When the expected address has a
  separator the four conditions are also enough to succeed, and the result is the key with
  the rendered address.
\<close>

theorem recover_address_window:
  fixes c :: constants and cr :: compat and st :: status_resp and rd :: read_resp
    and my_nonce :: bytes
  defines "msg \<equiv> OPENDIME @ sr_card_nonce st @ my_nonce @ [slot_byte (sr_slots st)]"
    and "addr \<equiv> render_address cr (rr_pubkey rd) False"
  defines "matches \<equiv>
           startsWith addr (expected_prefix (sr_addr st))
         \<and> endsWith addr (expected_suffix (sr_addr st))
         \<and> length (expected_prefix (sr_addr st)) = ADDR_TRIM c
         \<and> length (expected_suffix (sr_addr st)) = ADDR_TRIM c"
  assumes "\<not> sr_is_tapsigner st"
    and "length msg = 8 + CARD_NONCE_SIZE c + USER_NONCE_SIZE c + 1"
    and "CT_sig_verify cr (rr_sig rd) (sha256s cr msg) (rr_pubkey rd)"
  shows "(\<forall>r. recover_address c cr st rd my_nonce = Inr r \<longrightarrow> matches \<and> r = (rr_pubkey rd, addr))
       \<and> (\<not> matches \<longrightarrow> recover_address c cr st rd my_nonce = Inl (Error ''Corrupt response''))
       \<and> (matches \<and> CHR ''_'' \<in> set (sr_addr st) \<longrightarrow>
            recover_address c cr st rd my_nonce = Inr (rr_pubkey rd, addr))"
proof -
  define left where "left = js_slice (sr_addr st) 0 (js_indexOf (sr_addr st) CHR ''_'')"
  define right where
    "right = js_slice_from (sr_addr st) (js_lastIndexOf (sr_addr st) CHR ''_'' + 1)"
  define code where "code \<longleftrightarrow> startsWith addr left \<and> endsWith addr right \<and>
      length left = length right \<and> length left = ADDR_TRIM c"
  have res: "recover_address c cr st rd my_nonce =
      (if code then Inr (rr_pubkey rd, addr) else Inl (Error ''Corrupt response''))"
    unfolding recover_address_past_signature [OF assms(4-6) [unfolded msg_def]] Let_def
      code_def left_def right_def addr_def ..
  have up: "matches" if code
    unfolding matches_def
    using that window_check [of addr "sr_addr st" "ADDR_TRIM c"]
    unfolding code_def left_def right_def by blast
  have down: "code" if "matches" "CHR ''_'' \<in> set (sr_addr st)"
    using that(1) unfolding matches_def code_def left_def right_def
      window_with_separator [OF that(2)] by simp
  have c1: "\<forall>r. recover_address c cr st rd my_nonce = Inr r \<longrightarrow> matches \<and> r = (rr_pubkey rd, addr)"
    unfolding res using up by (cases code) simp_all
  have c2: "\<not> matches \<longrightarrow> recover_address c cr st rd my_nonce = Inl (Error ''Corrupt response'')"
    unfolding res using up by (cases code) simp_all
  have c3: "matches \<and> CHR ''_'' \<in> set (sr_addr st) \<longrightarrow>
      recover_address c cr st rd my_nonce = Inr (rr_pubkey rd, addr)"
    unfolding res using down by (cases code) auto
  show ?thesis
    using c1 c2 c3 by (intro conjI)
qed

theorem recover_address_window_witness:
  "\<not> sr_is_tapsigner demo_status
   \<and> length (OPENDIME @ sr_card_nonce demo_status @ demo_my_nonce
               @ [slot_byte (sr_slots demo_status)])
       = 8 + CARD_NONCE_SIZE demo_constants + USER_NONCE_SIZE demo_constants + 1
   \<and> CT_sig_verify demo_compat (rr_sig demo_read)
        (sha256s demo_compat (OPENDIME @ sr_card_nonce demo_status @ demo_my_nonce
               @ [slot_byte (sr_slots demo_status)]))
        (rr_pubkey demo_read)
   \<and> render_address demo_compat (rr_pubkey demo_read) False = ''bc1acfffffffffffffffffff''
   \<and> expected_prefix (sr_addr demo_status) = ''bc1acfffffff''
   \<and> expected_suffix (sr_addr demo_status) = ''ffffffffffff''
   \<and> ADDR_TRIM demo_constants = 12
   \<and> recover_address demo_constants demo_compat demo_status demo_read demo_my_nonce
       = Inr (demo_card_pubkey, ''bc1acfffffffffffffffffff'')"
proof -
  have h1: "\<not> sr_is_tapsigner demo_status"
    by (simp add: demo_status_def)
  have h2: "length (OPENDIME @ sr_card_nonce demo_status @ demo_my_nonce
               @ [slot_byte (sr_slots demo_status)])
       = 8 + CARD_NONCE_SIZE demo_constants + USER_NONCE_SIZE demo_constants + 1"
    by code_simp
  have h3: "CT_sig_verify demo_compat (rr_sig demo_read)
        (sha256s demo_compat (OPENDIME @ sr_card_nonce demo_status @ demo_my_nonce
               @ [slot_byte (sr_slots demo_status)]))
        (rr_pubkey demo_read)"
    by code_simp
  have a: "render_address demo_compat (rr_pubkey demo_read) False = ''bc1acfffffffffffffffffff''"
    by code_simp
  have p: "expected_prefix (sr_addr demo_status) = ''bc1acfffffff''"
    by code_simp
  have s: "expected_suffix (sr_addr demo_status) = ''ffffffffffff''"
    by code_simp
  have t: "ADDR_TRIM demo_constants = 12"
    by (simp add: demo_constants_def)
  have k: "rr_pubkey demo_read = demo_card_pubkey"
    by (simp add: demo_read_def)
  have a': "render_address demo_compat demo_card_pubkey False = ''bc1acfffffffffffffffffff''"
    using a unfolding k .
  have m: "startsWith ''bc1acfffffffffffffffffff'' ''bc1acfffffff''
      \<and> endsWith ''bc1acfffffffffffffffffff'' ''ffffffffffff''
      \<and> length ''bc1acfffffff'' = (12::nat) \<and> length ''ffffffffffff'' = (12::nat)"
    by code_simp
  have u: "CHR ''_'' \<in> set (sr_addr demo_status)"
    by code_simp
  have "recover_address demo_constants demo_compat demo_status demo_read demo_my_nonce
       = Inr (demo_card_pubkey, ''bc1acfffffffffffffffffff'')"
    using recover_address_window [OF h1 h2 h3, THEN conjunct2, THEN conjunct2] m u
    unfolding k a' p s t by blast
  with h1 h2 h3 a p s t show ?thesis
    by (intro conjI)
qed

subsection \<open>The proof of possession of a masked key\<close>

lemma js_slice_first: "js_slice xs 0 1 = take 1 xs"
  using js_slice_window [of xs 0 1] by simp

lemma js_slice_rest: "js_slice_from xs 1 = drop 1 xs"
  using js_slice_from_drop [of xs 1] by simp

lemma recover_pubkey_checks_key_as_signature:
  assumes "sr_is_tapsigner st"
    and "length (OPENDIME @ sr_card_nonce st @ my_nonce @ [0])
           = 8 + CARD_NONCE_SIZE c + USER_NONCE_SIZE c + 1"
    and "length (rr_pubkey rd) = Suc (length ses_key)"
  shows "recover_pubkey c cr st rd my_nonce ses_key =
     (let unmasked = take 1 (rr_pubkey rd) @ map2 (XOR) (drop 1 (rr_pubkey rd)) ses_key
      in if CT_sig_verify cr unmasked
              (sha256s cr (OPENDIME @ sr_card_nonce st @ my_nonce @ [0])) (rr_sig rd)
         then Inr unmasked else Inl (Error ''Bad sig in recover_pubkey''))"
proof -
  have x: "xor_bytes (js_slice_from (rr_pubkey rd) 1) ses_key
      = Inr (map2 (XOR) (drop 1 (rr_pubkey rd)) ses_key)"
    using assms(3) by (simp add: xor_bytes_def js_slice_rest)
  show ?thesis
    unfolding recover_pubkey_def Let_def x js_slice_first
    using assms(1,2) by simp
qed

text \<open>
  C3. \<open>recover_pubkey\<close> is claimed to verify the signature of the response against the
  unmasked key and to return that key when the signature verifies. It passes the
  unmasked key where \<open>CT_sig_verify\<close> takes the signature, and the signature where it
  takes the key: with a check that accepts a 64-byte signature for a 33-byte key, the
  signature of the response verifies against the unmasked key and the call still fails
  with \<open>Bad sig in recover_pubkey\<close>.
\<close>

theorem recover_pubkey_rejects_verified_signature:
  "js_slice (rr_pubkey demo_masked_read) 0 1 = [2]
   \<and> xor_bytes (js_slice_from (rr_pubkey demo_masked_read) 1) demo_session_key
       = Inr (replicate 32 10)
   \<and> CT_sig_verify demo_compat (rr_sig demo_masked_read)
        (sha256s demo_compat (OPENDIME @ demo_card_nonce @ demo_my_nonce @ [0]))
        (2 # replicate 32 10)
   \<and> recover_pubkey demo_constants demo_compat (demo_status \<lparr> sr_is_tapsigner := True \<rparr>)
        demo_masked_read demo_my_nonce demo_session_key
       = Inl (Error ''Bad sig in recover_pubkey'')"
  by code_simp

subsection \<open>Candidates of a recoverable signature\<close>

lemma make_recoverable_sig_loop_skips_late:
  assumes "2 \<le> rec_id" and "isl (CT_sig_to_pubkey cr digest (of_nat (39 + rec_id) # sg))"
  shows "make_recoverable_sig_loop cr digest sg addr ep t (rec_id # rest)
       = make_recoverable_sig_loop cr digest sg addr ep t rest"
  using assms by (simp add: Let_def)

lemma make_recoverable_sig_loop_mismatch:
  assumes "CT_sig_to_pubkey cr digest (of_nat (39 + rec_id) # sg) = Inr pk" and "pk \<noteq> ep"
  shows "make_recoverable_sig_loop cr digest sg addr (Some ep) t (rec_id # rest)
       = make_recoverable_sig_loop cr digest sg addr (Some ep) t rest"
  using assms by (simp add: Let_def)

lemma make_recoverable_sig_no_candidate:
  assumes "length digest = 32" and "length sg = 64"
    and "\<And>i. i < 4 \<Longrightarrow> \<exists>pk. CT_sig_to_pubkey cr digest (of_nat (39 + i) # sg) = Inr pk \<and> pk \<noteq> ep"
  shows "make_recoverable_sig cr digest sg addr (Some ep) t
       = Inl (Error ''sig may not be created by that address/pubkey??'')"
proof -
  have step: "make_recoverable_sig_loop cr digest sg addr (Some ep) t (i # rest)
      = make_recoverable_sig_loop cr digest sg addr (Some ep) t rest" if "i < 4" for i rest
    using assms(3) [OF that] make_recoverable_sig_loop_mismatch by blast
  have s0: "make_recoverable_sig_loop cr digest sg addr (Some ep) t [0, 1, 2, 3]
      = make_recoverable_sig_loop cr digest sg addr (Some ep) t [1, 2, 3]"
    by (rule step) simp
  have s1: "make_recoverable_sig_loop cr digest sg addr (Some ep) t [1, 2, 3]
      = make_recoverable_sig_loop cr digest sg addr (Some ep) t [2, 3]"
    by (rule step) simp
  have s2: "make_recoverable_sig_loop cr digest sg addr (Some ep) t [2, 3]
      = make_recoverable_sig_loop cr digest sg addr (Some ep) t [3]"
    by (rule step) simp
  have s3: "make_recoverable_sig_loop cr digest sg addr (Some ep) t [3]
      = make_recoverable_sig_loop cr digest sg addr (Some ep) t []"
    by (rule step) simp
  have "make_recoverable_sig_loop cr digest sg addr (Some ep) t [0, 1, 2, 3]
      = make_recoverable_sig_loop cr digest sg addr (Some ep) t []"
    unfolding s0 s1 s2 s3 ..
  then show ?thesis
    using assms(1,2) by (simp add: make_recoverable_sig_def)
qed

lemma make_recoverable_sig_failure_returned:
  assumes "length digest = 32" and "length sg = 64"
    and "isl (CT_sig_to_pubkey cr digest (39 # sg))"
  shows "make_recoverable_sig cr digest sg None None t = Inr (39 # sg)"
  using assms by (simp add: make_recoverable_sig_def Let_def)

text \<open>
  C5. A recovery failure for candidate 0 or 1 is claimed to reach the caller. The
  \<open>catch\<close> clause swallows it: with no expected address and no expected key the call
  returns the signature with the byte of candidate 0 in front, and with either of them
  it fails with a \<open>TypeError\<close> on the undefined key.
\<close>

theorem make_recoverable_sig_swallows_failure:
  "CT_sig_to_pubkey failing_compat (replicate 32 1) (39 # demo_sig)
       = Inl (Error ''recovery failed'')
   \<and> make_recoverable_sig failing_compat (replicate 32 1) demo_sig None None False
       = Inr (39 # demo_sig)
   \<and> make_recoverable_sig failing_compat (replicate 32 1) demo_sig
        None (Some demo_card_pubkey) False
       = Inl TypeError
   \<and> make_recoverable_sig failing_compat (replicate 32 1) demo_sig
        (Some ''ffff'') None False
       = Inl TypeError"
  by code_simp

subsection \<open>The masked verification code\<close>





end
